theory Spec2Isabelle
  imports Main
begin

section \<open>Exceptions and the data of the mail provider\<close>

text \<open>
  The handlers of \<^verbatim>\<open>gmail_archiver.py\<close> catch \<^verbatim>\<open>HttpError\<close>, \<^verbatim>\<open>FileNotFoundError\<close> and
  \<^verbatim>\<open>Exception\<close>. The type below stands for the subclasses of \<^verbatim>\<open>Exception\<close> that the calls
  of the script can raise; \<open>KeyError\<close> is what \<^verbatim>\<open>msg['id']\<close> raises on a message without that
  key.
\<close>

datatype exn = HttpError | FileNotFoundError | KeyError | OtherException

text \<open>
  A message of a listing page is a dict; the script reads its key \<^verbatim>\<open>'id'\<close> only. A page
  (the response of one list request) is a dict whose key \<^verbatim>\<open>'messages'\<close> may be absent.
\<close>

type_synonym message = "string \<rightharpoonup> string"

record response =
  messages :: "message list option"

text \<open>
  A list request is an object with one method, \<^verbatim>\<open>execute()\<close>, which raises or returns a
  response; \<^verbatim>\<open>list_next(previous_request, previous_response)\<close> then raises, returns
  \<^verbatim>\<open>None\<close> or returns the request of the next page. The chain of requests a service hands
  out need not end, so the type is coinductive.
\<close>

codatatype list_request = ListRequest (execute: execute_outcome)
  and execute_outcome = ExecuteRaises exn | ExecuteReturns response list_next_outcome
  and list_next_outcome = ListNextRaises exn | ListNextReturns "list_request option"

text \<open>
  The service object: \<open>list_messages\<close> is the outcome of
  \<^verbatim>\<open>service.users().messages().list(userId='me', labelIds=['INBOX'])\<close>, and
  \<open>modify i message_id\<close> is the outcome of the \<open>i\<close>-th (counted from 0) call
  \<^verbatim>\<open>modify(userId='me', id=message_id, body={'removeLabelIds': ['INBOX']}).execute()\<close>
  of an archive pass: \<open>None\<close> when it completes, \<open>Some e\<close> when it raises \<open>e\<close>.
\<close>

record service =
  list_messages :: "exn + list_request"
  modify :: "nat \<Rightarrow> string \<Rightarrow> exn option"

text \<open>The requests issued to the remote mailbox API, in the order they are issued.\<close>

datatype api_call = ListCall | ExecuteCall | ListNextCall | ModifyCall string

section \<open>fetch_inbox_emails\<close>

text \<open>\<^verbatim>\<open>[msg['id'] for msg in messages]\<close>: raises \<open>KeyError\<close> at the first message without an id.\<close>

fun current_page_ids :: "message list \<Rightarrow> exn + string list" where
  "current_page_ids [] = Inr []"
| "current_page_ids (msg # msgs) =
     (case msg ''id'' of
        None \<Rightarrow> Inl KeyError
      | Some i \<Rightarrow> (case current_page_ids msgs of Inl e \<Rightarrow> Inl e | Inr is \<Rightarrow> Inr (i # is)))"

text \<open>\<^verbatim>\<open>response.get('messages', [])\<close>\<close>

definition get_messages :: "response \<Rightarrow> message list" where
  "get_messages resp = (case messages resp of None \<Rightarrow> [] | Some msgs \<Rightarrow> msgs)"

text \<open>
  The \<^verbatim>\<open>while request is not None\<close> loop (lines 147-159) with the return of line 162. The
  result is \<open>Inl e\<close> when the body raises \<open>e\<close>, \<open>Inr message_ids\<close> when the loop ends, and
  \<open>None\<close> when the loop runs forever. The second component records the requests issued.
\<close>

partial_function (option) fetch_loop ::
  "list_request option \<Rightarrow> string list \<Rightarrow> api_call list \<Rightarrow>
     ((exn + string list) \<times> api_call list) option" where
  "fetch_loop request message_ids calls =
     (case request of
        None \<Rightarrow> Some (Inr message_ids, calls)
      | Some req \<Rightarrow>
          (case execute req of
             ExecuteRaises e \<Rightarrow> Some (Inl e, calls @ [ExecuteCall])
           | ExecuteReturns resp nxt \<Rightarrow>
               (if get_messages resp = [] then Some (Inr message_ids, calls @ [ExecuteCall])
                else
                  (case current_page_ids (get_messages resp) of
                     Inl e \<Rightarrow> Some (Inl e, calls @ [ExecuteCall])
                   | Inr page_ids \<Rightarrow>
                       (case nxt of
                          ListNextRaises e \<Rightarrow> Some (Inl e, calls @ [ExecuteCall, ListNextCall])
                        | ListNextReturns request' \<Rightarrow>
                            fetch_loop request' (message_ids @ page_ids)
                              (calls @ [ExecuteCall, ListNextCall]))))))"

text \<open>The body of the \<^verbatim>\<open>try\<close> block (lines 145-162).\<close>

definition fetch_body :: "service \<Rightarrow> ((exn + string list) \<times> api_call list) option" where
  "fetch_body svc =
     (case list_messages svc of
        Inl e \<Rightarrow> Some (Inl e, [ListCall])
      | Inr request \<Rightarrow> fetch_loop (Some request) [] [ListCall])"

text \<open>
  The function with its two handlers (lines 163-168): both return the empty list, whatever
  \<open>message_ids\<close> holds.
\<close>

definition fetch_inbox_emails :: "service \<Rightarrow> (string list \<times> api_call list) option" where
  "fetch_inbox_emails svc =
     (case fetch_body svc of
        None \<Rightarrow> None
      | Some (Inr message_ids, calls) \<Rightarrow> Some (message_ids, calls)
      | Some (Inl HttpError, calls) \<Rightarrow> Some ([], calls)
      | Some (Inl e, calls) \<Rightarrow> Some ([], calls))"

section \<open>archive_emails\<close>

text \<open>
  The \<^verbatim>\<open>for i, message_id in enumerate(message_ids)\<close> loop (lines 188-207): \<open>i\<close> is the index,
  \<open>archived_count\<close> the counter. Both handlers log and fall through to the next item.
\<close>

fun archive_loop ::
  "service \<Rightarrow> nat \<Rightarrow> string list \<Rightarrow> int \<Rightarrow> api_call list \<Rightarrow> int \<times> api_call list" where
  "archive_loop svc i [] archived_count calls = (archived_count, calls)"
| "archive_loop svc i (message_id # rest) archived_count calls =
     (case modify svc i message_id of
        None \<Rightarrow> archive_loop svc (Suc i) rest (archived_count + 1) (calls @ [ModifyCall message_id])
      | Some HttpError \<Rightarrow> archive_loop svc (Suc i) rest archived_count (calls @ [ModifyCall message_id])
      | Some e \<Rightarrow> archive_loop svc (Suc i) rest archived_count (calls @ [ModifyCall message_id]))"

definition archive_emails :: "service \<Rightarrow> string list \<Rightarrow> int \<times> api_call list" where
  "archive_emails svc message_ids =
     (if message_ids = [] then (0, [])
      else archive_loop svc 0 message_ids 0 [])"

section \<open>authenticate_gmail\<close>

text \<open>
  A credential as the script reads it: \<^verbatim>\<open>creds.valid\<close>, \<^verbatim>\<open>creds.expired\<close> and
  \<^verbatim>\<open>creds.refresh_token\<close>. The access token tells credentials apart.
\<close>

record credentials =
  token :: string
  refresh_token :: "string option"
  expired :: bool
  valid :: bool

text \<open>
  The flow object returned by \<^verbatim>\<open>InstalledAppFlow.from_client_secrets_file\<close>;
  \<^verbatim>\<open>run_local_server(port=0)\<close> is the interactive grant: it raises, or returns a credential or
  a falsy value (\<open>None\<close>).
\<close>

datatype flow = Flow (run_local_server: "exn + credentials option")

text \<open>
  What \<open>authenticate_gmail\<close> meets outside the script: the two \<^verbatim>\<open>os.path.exists\<close> tests, the
  outcome of loading \<^verbatim>\<open>token.json\<close>, of \<^verbatim>\<open>creds.refresh(Request())\<close> (the credential as it is
  after the in-place refresh, or the exception), of constructing the flow, of writing the
  token file and of \<^verbatim>\<open>build('gmail', 'v1', credentials=creds)\<close>.
\<close>

record environment =
  token_file_exists :: bool
  from_authorized_user_file :: "exn + credentials"
  refresh :: "credentials \<Rightarrow> exn + credentials"
  credentials_json_exists :: bool
  from_client_secrets_file :: "exn + flow"
  write_token :: "credentials \<Rightarrow> exn option"
  build :: "credentials \<Rightarrow> exn + service"

text \<open>
  The calls \<open>authenticate_gmail\<close> makes, in order. \<open>RunLocalServer\<close> is the launch of the
  interactive grant flow. A refresh goes through the HTTP transport \<^verbatim>\<open>Request()\<close> to the
  token endpoint, the grant flow exchanges its code there, and \<^verbatim>\<open>build\<close> fetches the
  discovery document: these are the network calls; the others read or write local files.
\<close>

datatype auth_event =
  LoadTokenFile | RefreshToken | ClientSecretsFile | RunLocalServer | WriteTokenFile | BuildService


text \<open>The local variables of \<open>authenticate_gmail\<close>, with the calls made so far.\<close>

record auth_state =
  creds :: "credentials option"
  creds_were_modified_and_need_saving :: bool
  events :: "auth_event list"

text \<open>Truthiness of \<^verbatim>\<open>creds.refresh_token\<close>: neither \<^verbatim>\<open>None\<close> nor the empty string.\<close>

definition truthy :: "string option \<Rightarrow> bool" where
  "truthy s \<longleftrightarrow> (case s of None \<Rightarrow> False | Some v \<Rightarrow> v \<noteq> [])"

text \<open>Lines 56-65: load \<^verbatim>\<open>token.json\<close> when it exists; a failure to load leaves \<open>creds\<close> at \<open>None\<close>.\<close>

definition load_token :: "environment \<Rightarrow> auth_state" where
  "load_token env =
     (if token_file_exists env then
        (case from_authorized_user_file env of
           Inr c \<Rightarrow>
             \<lparr>creds = Some c, creds_were_modified_and_need_saving = False,
              events = [LoadTokenFile]\<rparr>
         | Inl e \<Rightarrow>
             \<lparr>creds = None, creds_were_modified_and_need_saving = False,
              events = [LoadTokenFile]\<rparr>)
      else \<lparr>creds = None, creds_were_modified_and_need_saving = False, events = []\<rparr>)"

text \<open>
  Lines 67-81: a loaded credential is kept when valid, refreshed when expired with a refresh
  token, and dropped otherwise or when the refresh raises.
\<close>

definition check_loaded :: "environment \<Rightarrow> auth_state \<Rightarrow> auth_state" where
  "check_loaded env st =
     (case creds st of
        None \<Rightarrow> st
      | Some c \<Rightarrow>
          if valid c then st
          else if expired c \<and> truthy (refresh_token c) then
            (case refresh env c of
               Inr c' \<Rightarrow>
                 st\<lparr>creds := Some c', creds_were_modified_and_need_saving := True,
                    events := events st @ [RefreshToken]\<rparr>
             | Inl e \<Rightarrow> st\<lparr>creds := None, events := events st @ [RefreshToken]\<rparr>)
          else st\<lparr>creds := None\<rparr>)"

text \<open>The state at line 85, before the test \<^verbatim>\<open>if not creds\<close>.\<close>

definition existing_credentials :: "environment \<Rightarrow> auth_state" where
  "existing_credentials env = check_loaded env (load_token env)"

text \<open>
  Lines 85-106: without a credential, the new OAuth flow. \<open>Inl\<close> is one of the three
  \<^verbatim>\<open>return None\<close> of this block, with the calls made up to it.
\<close>

definition new_oauth_flow :: "environment \<Rightarrow> auth_state \<Rightarrow> auth_event list + auth_state" where
  "new_oauth_flow env st =
     (case creds st of
        Some c \<Rightarrow> Inr st
      | None \<Rightarrow>
          if \<not> credentials_json_exists env then Inl (events st)
          else
            (case from_client_secrets_file env of
               Inl FileNotFoundError \<Rightarrow> Inl (events st @ [ClientSecretsFile])
             | Inl e \<Rightarrow> Inl (events st @ [ClientSecretsFile])
             | Inr fl \<Rightarrow>
                 (case run_local_server fl of
                    Inl FileNotFoundError \<Rightarrow>
                      Inl (events st @ [ClientSecretsFile, RunLocalServer])
                  | Inl e \<Rightarrow> Inl (events st @ [ClientSecretsFile, RunLocalServer])
                  | Inr None \<Rightarrow>
                      Inr (st\<lparr>events := events st @ [ClientSecretsFile, RunLocalServer]\<rparr>)
                  | Inr (Some creds_new) \<Rightarrow>
                      Inr (st\<lparr>creds := Some creds_new,
                              creds_were_modified_and_need_saving := True,
                              events := events st @ [ClientSecretsFile, RunLocalServer]\<rparr>))))"

text \<open>Lines 109-117: save a modified credential; a failure to write is logged only.\<close>

definition save_token :: "environment \<Rightarrow> auth_state \<Rightarrow> auth_state" where
  "save_token env st =
     (case creds st of
        None \<Rightarrow> st
      | Some c \<Rightarrow>
          if creds_were_modified_and_need_saving st then
            (case write_token env c of
               None \<Rightarrow> st\<lparr>events := events st @ [WriteTokenFile]\<rparr>
             | Some e \<Rightarrow> st\<lparr>events := events st @ [WriteTokenFile]\<rparr>)
          else st)"

text \<open>Lines 120-133: the final check of \<^verbatim>\<open>creds.valid\<close> and the construction of the service.\<close>

definition build_service :: "environment \<Rightarrow> auth_state \<Rightarrow> service option \<times> auth_event list" where
  "build_service env st =
     (case creds st of
        None \<Rightarrow> (None, events st)
      | Some c \<Rightarrow>
          if \<not> valid c then (None, events st)
          else
            (case build env c of
               Inr svc \<Rightarrow> (Some svc, events st @ [BuildService])
             | Inl HttpError \<Rightarrow> (None, events st @ [BuildService])
             | Inl e \<Rightarrow> (None, events st @ [BuildService])))"

text \<open>The whole function: the returned service (or \<open>None\<close>) and the calls it made.\<close>

definition authenticate_gmail :: "environment \<Rightarrow> service option \<times> auth_event list" where
  "authenticate_gmail env =
     (case new_oauth_flow env (existing_credentials env) of
        Inl evs \<Rightarrow> (None, evs)
      | Inr st \<Rightarrow> build_service env (save_token env st))"

text \<open>
  The value of \<open>creds\<close> at line 120, after the load, refresh, grant and save steps; \<open>None\<close>
  also when the function has returned before that line.
\<close>

definition credentials_after_steps :: "environment \<Rightarrow> credentials option" where
  "credentials_after_steps env =
     (case new_oauth_flow env (existing_credentials env) of
        Inl evs \<Rightarrow> None
      | Inr st \<Rightarrow> creds (save_token env st))"

section \<open>main\<close>

text \<open>
  A run of the program: the calls of the authentication, then the requests to the mailbox
  API (\<open>None\<close> when the listing never returns).
\<close>

record run =
  auth_events :: "auth_event list"
  api_calls :: "api_call list option"

definition main :: "environment \<Rightarrow> run" where
  "main env =
     (case authenticate_gmail env of
        (None, evs) \<Rightarrow> \<lparr>auth_events = evs, api_calls = Some []\<rparr>
      | (Some svc, evs) \<Rightarrow>
          (case fetch_inbox_emails svc of
             None \<Rightarrow> \<lparr>auth_events = evs, api_calls = None\<rparr>
           | Some (inbox_message_ids, calls) \<Rightarrow>
               if inbox_message_ids = [] then \<lparr>auth_events = evs, api_calls = Some calls\<rparr>
               else \<lparr>auth_events = evs,
                     api_calls = Some (calls @ snd (archive_emails svc inbox_message_ids))\<rparr>))"

section \<open>Vocabulary of the properties\<close>

text \<open>
  The chain of list requests that serves the given pages one after the other; \<open>final\<close> is
  what \<^verbatim>\<open>list_next\<close> does after the last of them.
\<close>

fun serve_pages :: "response list \<Rightarrow> list_next_outcome \<Rightarrow> list_next_outcome" where
  "serve_pages [] final = final"
| "serve_pages (page # pages) final =
     ListNextReturns (Some (ListRequest (ExecuteReturns page (serve_pages pages final))))"

text \<open>The initial list request of the service starts such a chain.\<close>

definition serves :: "service \<Rightarrow> response list \<Rightarrow> list_next_outcome \<Rightarrow> bool" where
  "serves svc pages final \<longleftrightarrow>
     (case list_messages svc of
        Inl e \<Rightarrow> False
      | Inr request \<Rightarrow> ListNextReturns (Some request) = serve_pages pages final)"

text \<open>The identifiers on a page, in the order of its messages.\<close>

definition ids_of_page :: "response \<Rightarrow> string list" where
  "ids_of_page page = List.map_filter (\<lambda>msg. msg ''id'') (get_messages page)"

text \<open>A page with at least one message, each with an identifier.\<close>

definition page_has_ids :: "response \<Rightarrow> bool" where
  "page_has_ids page \<longleftrightarrow>
     get_messages page \<noteq> [] \<and> list_all (\<lambda>msg. msg ''id'' \<noteq> None) (get_messages page)"

text \<open>A page with exactly one message, which has an identifier.\<close>

definition one_message_page :: "response \<Rightarrow> bool" where
  "one_message_page page \<longleftrightarrow>
     (case messages page of Some [msg] \<Rightarrow> msg ''id'' \<noteq> None | _ \<Rightarrow> False)"

text \<open>
  The number of executed page requests that were obtained from \<^verbatim>\<open>list_next\<close>: an
  \<open>ExecuteCall\<close> that directly follows a \<open>ListNextCall\<close>.
\<close>

fun continuation_requests :: "api_call list \<Rightarrow> nat" where
  "continuation_requests (ListNextCall # ExecuteCall # calls) = Suc (continuation_requests calls)"
| "continuation_requests (c # calls) = continuation_requests calls"
| "continuation_requests [] = 0"

text \<open>The calls of \<open>n\<close> turns of the loop that reach \<^verbatim>\<open>list_next\<close>.\<close>

definition page_calls :: "nat \<Rightarrow> api_call list" where
  "page_calls n = concat (replicate n [ExecuteCall, ListNextCall])"

text \<open>How the loop goes on once \<^verbatim>\<open>list_next\<close> has been called.\<close>

definition resume ::
  "list_next_outcome \<Rightarrow> string list \<Rightarrow> api_call list \<Rightarrow>
     ((exn + string list) \<times> api_call list) option" where
  "resume nxt message_ids calls =
     (case nxt of
        ListNextRaises e \<Rightarrow> Some (Inl e, calls)
      | ListNextReturns request \<Rightarrow> fetch_loop request message_ids calls)"

section \<open>Concrete services and environments\<close>

text \<open>A page whose messages carry the given identifiers.\<close>

definition page_of :: "string list \<Rightarrow> response" where
  "page_of ids = \<lparr>messages = Some (map (\<lambda>i. [''id'' \<mapsto> i]) ids)\<rparr>"

definition no_modify :: "nat \<Rightarrow> string \<Rightarrow> exn option" where
  "no_modify i message_id = None"

text \<open>A service whose mutation fails with \<open>HttpError\<close> at index 1 only.\<close>

definition fails_at_1 :: service where
  "fails_at_1 =
     \<lparr>list_messages = Inl HttpError,
      modify = (\<lambda>i message_id. if i = 1 then Some HttpError else None)\<rparr>"

text \<open>Three pages: \<open>m1\<close>, then a page without the \<^verbatim>\<open>messages\<close> key, then \<open>m2\<close>.\<close>

definition gap_service :: service where
  "gap_service =
     \<lparr>list_messages = Inr (ListRequest (ExecuteReturns (page_of [''m1''])
        (ListNextReturns (Some (ListRequest (ExecuteReturns \<lparr>messages = None\<rparr>
          (ListNextReturns (Some (ListRequest (ExecuteReturns (page_of [''m2''])
            (ListNextReturns None))))))))))),
      modify = no_modify\<rparr>"

text \<open>Two pages with identifiers, then a page with an empty \<^verbatim>\<open>messages\<close> list.\<close>

definition empty_tail_service :: service where
  "empty_tail_service =
     \<lparr>list_messages = Inr (ListRequest (ExecuteReturns (page_of [''m1'', ''m2''])
        (ListNextReturns (Some (ListRequest (ExecuteReturns (page_of [''m3''])
          (ListNextReturns (Some (ListRequest (ExecuteReturns \<lparr>messages = Some []\<rparr>
            (ListNextRaises HttpError))))))))))),
      modify = no_modify\<rparr>"

text \<open>The two pages of \<^verbatim>\<open>test_fetch_inbox_emails_success_multiple_pages\<close>.\<close>

definition two_page_service :: service where
  "two_page_service =
     \<lparr>list_messages = Inr (ListRequest (ExecuteReturns (page_of [''msg1''])
        (ListNextReturns (Some (ListRequest (ExecuteReturns (page_of [''msg2''])
          (ListNextReturns None))))))),
      modify = no_modify\<rparr>"

text \<open>One page, then a request whose \<^verbatim>\<open>execute()\<close> raises \<open>HttpError\<close>.\<close>

definition failing_second_page_service :: service where
  "failing_second_page_service =
     \<lparr>list_messages = Inr (ListRequest (ExecuteReturns (page_of [''m1''])
        (ListNextReturns (Some (ListRequest (ExecuteRaises HttpError)))))),
      modify = no_modify\<rparr>"

definition expired_creds :: credentials where
  "expired_creds = \<lparr>token = ''old'', refresh_token = Some ''r'', expired = True, valid = False\<rparr>"

definition valid_creds :: credentials where
  "valid_creds = \<lparr>token = ''stored'', refresh_token = Some ''r'', expired = False, valid = True\<rparr>"

definition granted_creds :: credentials where
  "granted_creds = \<lparr>token = ''granted'', refresh_token = Some ''g'', expired = False, valid = True\<rparr>"

definition invalid_grant_creds :: credentials where
  "invalid_grant_creds = \<lparr>token = [], refresh_token = None, expired = False, valid = False\<rparr>"

text \<open>\<^verbatim>\<open>test_authenticate_gmail_token_expired_refresh_success\<close>: the refresh makes the credential valid.\<close>

definition refresh_succeeds :: environment where
  "refresh_succeeds =
     \<lparr>token_file_exists = True,
      from_authorized_user_file = Inr expired_creds,
      refresh = (\<lambda>c. Inr (c\<lparr>token := ''new'', expired := False, valid := True\<rparr>)),
      credentials_json_exists = True,
      from_client_secrets_file = Inr (Flow (Inr (Some granted_creds))),
      write_token = (\<lambda>c. None),
      build = (\<lambda>c. Inr two_page_service)\<rparr>"

text \<open>
  \<^verbatim>\<open>test_authenticate_gmail_token_expired_refresh_fail\<close>: the refresh raises and the grant flow
  yields a new credential; the service can be built from that credential only.
\<close>

definition refresh_fails :: environment where
  "refresh_fails =
     \<lparr>token_file_exists = True,
      from_authorized_user_file = Inr expired_creds,
      refresh = (\<lambda>c. Inl OtherException),
      credentials_json_exists = True,
      from_client_secrets_file = Inr (Flow (Inr (Some granted_creds))),
      write_token = (\<lambda>c. None),
      build = (\<lambda>c. if token c = ''granted'' then Inr two_page_service else Inl OtherException)\<rparr>"

text \<open>The refresh raises and \<^verbatim>\<open>credentials.json\<close> is absent.\<close>

definition refresh_fails_no_config :: environment where
  "refresh_fails_no_config =
     \<lparr>token_file_exists = True,
      from_authorized_user_file = Inr expired_creds,
      refresh = (\<lambda>c. Inl OtherException),
      credentials_json_exists = False,
      from_client_secrets_file = Inl FileNotFoundError,
      write_token = (\<lambda>c. None),
      build = (\<lambda>c. Inr two_page_service)\<rparr>"


text \<open>\<^verbatim>\<open>test_authenticate_gmail_token_valid\<close>: the stored credential is valid.\<close>

definition token_valid :: environment where
  "token_valid =
     \<lparr>token_file_exists = True,
      from_authorized_user_file = Inr valid_creds,
      refresh = (\<lambda>c. Inl OtherException),
      credentials_json_exists = False,
      from_client_secrets_file = Inl FileNotFoundError,
      write_token = (\<lambda>c. None),
      build = (\<lambda>c. Inr two_page_service)\<rparr>"

text \<open>No stored token; the grant flow returns a credential that is not valid.\<close>

definition grant_not_valid :: environment where
  "grant_not_valid =
     \<lparr>token_file_exists = False,
      from_authorized_user_file = Inl FileNotFoundError,
      refresh = (\<lambda>c. Inl OtherException),
      credentials_json_exists = True,
      from_client_secrets_file = Inr (Flow (Inr (Some invalid_grant_creds))),
      write_token = (\<lambda>c. Some OtherException),
      build = (\<lambda>c. Inr two_page_service)\<rparr>"

section \<open>Properties of archive_emails\<close>

lemma archive_loop_eq:
  "archive_loop svc i ids c calls =
     (c + int (length (filter (\<lambda>(j, m). modify svc j m = None) (enumerate i ids))),
      calls @ map ModifyCall ids)"
proof (induction ids arbitrary: i c calls)
  case Nil
  show ?case by simp
next
  case (Cons m ms)
  show ?case
  proof (cases "modify svc i m")
    case None
    then show ?thesis by (simp add: Cons.IH)
  next
    case (Some e)
    then show ?thesis by (cases e) (simp_all add: Cons.IH)
  qed
qed

lemma filter_enumerate_all:
  assumes "\<forall>j<length ids. P (n + j, ids ! j)"
  shows "filter P (enumerate n ids) = enumerate n ids"
proof (rule filter_True, clarify)
  fix a b
  assume "(a, b) \<in> set (enumerate n ids)"
  then have a: "n \<le> a" "a < length ids + n" and b: "b = ids ! (a - n)"
    by (auto simp: in_set_enumerate_eq)
  from a have "a - n < length ids" by simp
  with assms have "P (n + (a - n), ids ! (a - n))" by blast
  with a b show "P (a, b)" by simp
qed

lemma one_failure_count:
  assumes "i < length ids"
    and "\<not> P (i, ids ! i)"
    and "\<forall>j<length ids. j \<noteq> i \<longrightarrow> P (j, ids ! j)"
  shows "int (length (filter P (enumerate 0 ids))) = int (length ids) - 1"
proof -
  have split: "ids = take i ids @ ids ! i # drop (Suc i) ids"
    using assms(1) by (simp add: id_take_nth_drop)
  have len: "length (take i ids) = i" using assms(1) by simp
  have before: "filter P (enumerate 0 (take i ids)) = enumerate 0 (take i ids)"
    using assms by (intro filter_enumerate_all) auto
  have after:
    "filter P (enumerate (Suc i) (drop (Suc i) ids)) = enumerate (Suc i) (drop (Suc i) ids)"
    using assms by (intro filter_enumerate_all) auto
  have "enumerate 0 ids = enumerate 0 (take i ids @ ids ! i # drop (Suc i) ids)"
    using split by simp
  also have "\<dots> =
      enumerate 0 (take i ids) @ (i, ids ! i) # enumerate (Suc i) (drop (Suc i) ids)"
    using assms(1) by (simp add: enumerate_append_eq)
  finally have "length (filter P (enumerate 0 ids)) = i + (length ids - Suc i)"
    using before after assms(1,2) by (simp add: len)
  then show ?thesis using assms(1) by simp
qed

text \<open>
  C3. When the mutation of the item at exactly one index \<open>i\<close> of the \<open>K\<close> input identifiers
  raises and all the others complete, \<open>archive_emails\<close> returns \<open>K - 1\<close> and issues exactly
  one mutation per identifier, in input order; those after index \<open>i\<close> are issued as well.
\<close>

theorem archive_emails_one_failure:
  assumes "i < length message_ids"
    and "modify svc i (message_ids ! i) \<noteq> None"
    and "\<forall>j<length message_ids. j \<noteq> i \<longrightarrow> modify svc j (message_ids ! j) = None"
  shows "archive_emails svc message_ids =
           (int (length message_ids) - 1, map ModifyCall message_ids)"
proof -
  from assms(1) have ne: "message_ids \<noteq> []" by auto
  have "int (length (filter (\<lambda>(j, m). modify svc j m = None) (enumerate 0 message_ids))) =
          int (length message_ids) - 1"
    using assms by (intro one_failure_count [where i = i]) auto
  with ne show ?thesis
    by (simp add: archive_emails_def archive_loop_eq)
qed

theorem archive_emails_one_failure_witness:
  "archive_emails fails_at_1 [''m1'', ''m2'', ''m3''] =
     (2, [ModifyCall ''m1'', ModifyCall ''m2'', ModifyCall ''m3''])"
  using archive_emails_one_failure [of 1 "[''m1'', ''m2'', ''m3'']" fails_at_1]
  by (simp add: fails_at_1_def nth_Cons' less_Suc_eq)

text \<open>
  C9. On the empty list \<open>archive_emails\<close> returns 0 and issues no mutation request.
\<close>

theorem archive_emails_empty: "archive_emails svc [] = (0, [])"
  by (simp add: archive_emails_def)

text \<open>
  C10. For every input list and every pattern of success and failure of the mutations,
  \<open>archive_emails\<close> issues one mutation request per identifier, in input order, and returns
  the number of those requests (index and identifier) that completed without raising; the
  count lies between 0 and the length of the input.
\<close>

theorem archive_emails_count:
  "archive_emails svc message_ids =
     (int (length (filter (\<lambda>(i, message_id). modify svc i message_id = None)
                     (enumerate 0 message_ids))),
      map ModifyCall message_ids) \<and>
   0 \<le> fst (archive_emails svc message_ids) \<and>
   fst (archive_emails svc message_ids) \<le> int (length message_ids) \<and>
   fst (archive_emails svc message_ids) =
     int (length (filter (\<lambda>(i, message_id). modify svc i message_id = None)
                    (enumerate 0 message_ids)))"
proof -
  have pair: "archive_emails svc message_ids =
     (int (length (filter (\<lambda>(i, message_id). modify svc i message_id = None)
                     (enumerate 0 message_ids))),
      map ModifyCall message_ids)"
    by (simp add: archive_emails_def archive_loop_eq)
  have "length (filter (\<lambda>(i, message_id). modify svc i message_id = None)
                    (enumerate 0 message_ids)) \<le> length (enumerate 0 message_ids)"
    by (rule length_filter_le)
  then have bound: "int (length (filter (\<lambda>(i, message_id). modify svc i message_id = None)
                    (enumerate 0 message_ids))) \<le> int (length message_ids)"
    by simp
  show ?thesis
    unfolding pair fst_conv using bound by simp
qed

section \<open>Properties of fetch_inbox_emails\<close>

lemma current_page_ids_all:
  "list_all (\<lambda>msg. msg ''id'' \<noteq> None) msgs \<Longrightarrow>
     current_page_ids msgs = Inr (List.map_filter (\<lambda>msg. msg ''id'') msgs)"
  by (induction msgs) auto

lemma fetch_loop_page:
  assumes "page_has_ids page"
  shows "fetch_loop (Some (ListRequest (ExecuteReturns page nxt))) message_ids calls =
           resume nxt (message_ids @ ids_of_page page) (calls @ [ExecuteCall, ListNextCall])"
  using assms
  by (subst fetch_loop.simps)
     (simp add: page_has_ids_def ids_of_page_def current_page_ids_all resume_def
        split: list_next_outcome.splits)

lemma resume_serve_pages:
  "list_all page_has_ids pages \<Longrightarrow>
     resume (serve_pages pages final) message_ids calls =
       resume final (message_ids @ concat (map ids_of_page pages))
         (calls @ page_calls (length pages))"
proof (induction pages arbitrary: message_ids calls)
  case Nil
  show ?case by (simp add: page_calls_def)
next
  case (Cons page pages)
  then have "resume (serve_pages (page # pages) final) message_ids calls =
      resume (serve_pages pages final) (message_ids @ ids_of_page page)
        (calls @ [ExecuteCall, ListNextCall])"
    by (simp add: resume_def [of "ListNextReturns _"] fetch_loop_page)
  also have "\<dots> = resume final ((message_ids @ ids_of_page page) @ concat (map ids_of_page pages))
         ((calls @ [ExecuteCall, ListNextCall]) @ page_calls (length pages))"
    using Cons.prems by (intro Cons.IH) simp
  finally show ?case by (simp add: page_calls_def)
qed

lemma fetch_body_serves:
  assumes "serves svc pages final" and "list_all page_has_ids pages"
  shows "fetch_body svc =
           resume final (concat (map ids_of_page pages)) (ListCall # page_calls (length pages))"
proof -
  from assms(1) obtain request where
    r: "list_messages svc = Inr request" "ListNextReturns (Some request) = serve_pages pages final"
    by (auto simp: serves_def split: sum.splits)
  have "fetch_body svc = resume (ListNextReturns (Some request)) [] [ListCall]"
    by (simp add: fetch_body_def r(1) resume_def)
  also have "\<dots> = resume final ([] @ concat (map ids_of_page pages))
      ([ListCall] @ page_calls (length pages))"
    unfolding r(2) using assms(2) by (rule resume_serve_pages)
  finally show ?thesis by simp
qed

lemma continuation_requests_page_calls:
  "continuation_requests (ListNextCall # page_calls n) = n"
  by (induction n) (simp_all add: page_calls_def)

lemma count_page_calls: "count_list (page_calls n) ExecuteCall = n"
  by (induction n) (simp_all add: page_calls_def)

lemma serve_pages_append:
  "serve_pages (pages @ [page]) nxt =
     serve_pages pages (ListNextReturns (Some (ListRequest (ExecuteReturns page nxt))))"
  by (induction pages) simp_all

lemma fetch_inbox_emails_Inr:
  "fetch_body svc = Some (Inr ids, calls) \<Longrightarrow> fetch_inbox_emails svc = Some (ids, calls)"
  by (simp add: fetch_inbox_emails_def)

lemma fetch_inbox_emails_Inl:
  "fetch_body svc = Some (Inl e, calls) \<Longrightarrow> fetch_inbox_emails svc = Some ([], calls)"
  by (cases e) (simp_all add: fetch_inbox_emails_def)

lemma one_message_page_has_ids:
  "one_message_page page \<Longrightarrow> page_has_ids page \<and> length (ids_of_page page) = 1"
  by (auto simp: one_message_page_def page_has_ids_def ids_of_page_def get_messages_def
      split: option.splits list.splits)

lemma one_message_pages:
  "list_all one_message_page pages \<Longrightarrow>
     list_all page_has_ids pages \<and> length (concat (map ids_of_page pages)) = length pages"
  by (induction pages) (auto dest: one_message_page_has_ids)

text \<open>
  The claim C1 as stated fails on three pages of which the second has no \<^verbatim>\<open>messages\<close> key:
  the listing ends at the second page after two page requests, and \<open>m2\<close> of the third page
  is not returned.
\<close>

theorem fetch_stops_at_empty_page_counterexample:
  "serves gap_service [page_of [''m1''], \<lparr>messages = None\<rparr>, page_of [''m2'']]
     (ListNextReturns None) \<and>
   fetch_inbox_emails gap_service =
     Some ([''m1''], [ListCall, ExecuteCall, ListNextCall, ExecuteCall])"
  by (simp add: gap_service_def serves_def fetch_inbox_emails_def fetch_body_def
      fetch_loop.simps page_of_def get_messages_def)

text \<open>
  C1 (amended). A page whose \<^verbatim>\<open>messages\<close> field is absent or empty is not an error and
  contributes no item, but it ends the listing: after any pages with identifiers, the
  operation returns the identifiers of those pages, in page order, executes the request of
  the empty page and calls \<^verbatim>\<open>list_next\<close> no more, whatever continuation \<open>nxt\<close> the service
  holds after it.
\<close>

theorem fetch_inbox_emails_empty_page:
  assumes "list_all page_has_ids pages"
    and "get_messages page = []"
    and "serves svc (pages @ [page]) nxt"
  shows "fetch_inbox_emails svc =
           Some (concat (map ids_of_page pages),
                 ListCall # page_calls (length pages) @ [ExecuteCall])"
proof -
  let ?final = "ListNextReturns (Some (ListRequest (ExecuteReturns page nxt)))"
  from assms(3) have "serves svc pages ?final"
    unfolding serves_def serve_pages_append .
  then have "fetch_body svc =
      resume ?final (concat (map ids_of_page pages)) (ListCall # page_calls (length pages))"
    using assms(1) by (rule fetch_body_serves)
  also have "\<dots> = Some (Inr (concat (map ids_of_page pages)),
      (ListCall # page_calls (length pages)) @ [ExecuteCall])"
    unfolding resume_def using assms(2) by (subst fetch_loop.simps) simp
  finally show ?thesis by (simp add: fetch_inbox_emails_Inr)
qed

theorem fetch_inbox_emails_empty_page_witness:
  "fetch_inbox_emails empty_tail_service =
     Some ([''m1'', ''m2'', ''m3''],
           [ListCall, ExecuteCall, ListNextCall, ExecuteCall, ListNextCall, ExecuteCall])"
  using fetch_inbox_emails_empty_page
    [of "[page_of [''m1'', ''m2''], page_of [''m3'']]" "\<lparr>messages = Some []\<rparr>"
        empty_tail_service "ListNextRaises HttpError"]
  by (simp add: empty_tail_service_def serves_def page_of_def page_has_ids_def
      get_messages_def ids_of_page_def page_calls_def)

text \<open>
  C2. Given \<open>N \<ge> 1\<close> pages of exactly one message each and a continuation chain that ends
  after them, \<open>fetch_inbox_emails\<close> returns the \<open>N\<close> identifiers in page order (the
  concatenation of the pages' identifiers) and executes exactly \<open>N\<close> page requests, \<open>N - 1\<close>
  of which it obtained from \<^verbatim>\<open>list_next\<close>.
\<close>

theorem fetch_inbox_emails_pagination:
  assumes "pages \<noteq> []"
    and "list_all one_message_page pages"
    and "serves svc pages (ListNextReturns None)"
  shows "fetch_inbox_emails svc =
           Some (concat (map ids_of_page pages), ListCall # page_calls (length pages)) \<and>
         length (concat (map ids_of_page pages)) = length pages \<and>
         count_list (ListCall # page_calls (length pages)) ExecuteCall = length pages \<and>
         continuation_requests (ListCall # page_calls (length pages)) = length pages - 1"
proof -
  from assms(2) have good: "list_all page_has_ids pages"
    and len: "length (concat (map ids_of_page pages)) = length pages"
    by (simp_all add: one_message_pages)
  have "fetch_body svc =
      resume (ListNextReturns None) (concat (map ids_of_page pages))
        (ListCall # page_calls (length pages))"
    using assms(3) good by (rule fetch_body_serves)
  also have "\<dots> = Some (Inr (concat (map ids_of_page pages)),
      ListCall # page_calls (length pages))"
    unfolding resume_def by (subst fetch_loop.simps) simp
  finally have res: "fetch_inbox_emails svc =
      Some (concat (map ids_of_page pages), ListCall # page_calls (length pages))"
    by (rule fetch_inbox_emails_Inr)
  from assms(1) obtain n where n: "length pages = Suc n"
    by (cases pages) auto
  have "continuation_requests (ListCall # page_calls (Suc n)) =
      continuation_requests (ListNextCall # page_calls n)"
    by (simp add: page_calls_def)
  then have cont: "continuation_requests (ListCall # page_calls (length pages)) = length pages - 1"
    by (simp add: n continuation_requests_page_calls)
  show ?thesis using res len cont by (simp add: count_page_calls)
qed

theorem fetch_inbox_emails_pagination_witness:
  "fetch_inbox_emails two_page_service =
     Some ([''msg1'', ''msg2''],
           [ListCall, ExecuteCall, ListNextCall, ExecuteCall, ListNextCall]) \<and>
   count_list [ListCall, ExecuteCall, ListNextCall, ExecuteCall, ListNextCall] ExecuteCall = 2 \<and>
   continuation_requests [ListCall, ExecuteCall, ListNextCall, ExecuteCall, ListNextCall] = 1"
  using fetch_inbox_emails_pagination
    [of "[page_of [''msg1''], page_of [''msg2'']]" two_page_service]
  by (simp add: two_page_service_def serves_def page_of_def one_message_page_def
      get_messages_def ids_of_page_def page_calls_def)

text \<open>
  C4. Whenever the \<^verbatim>\<open>try\<close> block of \<open>fetch_inbox_emails\<close> raises, the operation returns the
  empty list and no exception; in particular, when a page request raises after any number
  of pages with identifiers, the identifiers accumulated from those pages are discarded.
\<close>

theorem fetch_inbox_emails_error:
  "(fetch_body svc = Some (Inl e, calls) \<longrightarrow> fetch_inbox_emails svc = Some ([], calls)) \<and>
   (list_all page_has_ids pages \<and>
    serves svc pages (ListNextReturns (Some (ListRequest (ExecuteRaises e')))) \<longrightarrow>
      fetch_body svc = Some (Inl e', ListCall # page_calls (length pages) @ [ExecuteCall]) \<and>
      fetch_inbox_emails svc = Some ([], ListCall # page_calls (length pages) @ [ExecuteCall]))"
proof (intro conjI impI)
  assume "fetch_body svc = Some (Inl e, calls)"
  then show "fetch_inbox_emails svc = Some ([], calls)"
    by (rule fetch_inbox_emails_Inl)
next
  let ?final = "ListNextReturns (Some (ListRequest (ExecuteRaises e')))"
  assume a: "list_all page_has_ids pages \<and> serves svc pages ?final"
  then have "fetch_body svc =
      resume ?final (concat (map ids_of_page pages)) (ListCall # page_calls (length pages))"
    by (intro fetch_body_serves) simp_all
  also have "\<dots> = Some (Inl e', (ListCall # page_calls (length pages)) @ [ExecuteCall])"
    unfolding resume_def by (subst fetch_loop.simps) simp
  finally show body: "fetch_body svc =
      Some (Inl e', ListCall # page_calls (length pages) @ [ExecuteCall])"
    by simp
  then show "fetch_inbox_emails svc = Some ([], ListCall # page_calls (length pages) @ [ExecuteCall])"
    by (rule fetch_inbox_emails_Inl)
qed

theorem fetch_inbox_emails_error_witness:
  "fetch_body failing_second_page_service =
     Some (Inl HttpError, [ListCall, ExecuteCall, ListNextCall, ExecuteCall]) \<and>
   fetch_inbox_emails failing_second_page_service =
     Some ([], [ListCall, ExecuteCall, ListNextCall, ExecuteCall])"
  using fetch_inbox_emails_error
    [of failing_second_page_service HttpError
        "[ListCall, ExecuteCall, ListNextCall, ExecuteCall]" "[page_of [''m1'']]" HttpError]
  by (simp add: failing_second_page_service_def serves_def page_of_def page_has_ids_def
      get_messages_def page_calls_def)

section \<open>Properties of authenticate_gmail and main\<close>

lemmas auth_defs =
  authenticate_gmail_def existing_credentials_def load_token_def check_loaded_def
  new_oauth_flow_def save_token_def build_service_def credentials_after_steps_def truthy_def

lemma existing_credentials_events:
  "events (existing_credentials env) = [] \<or>
   events (existing_credentials env) = [LoadTokenFile] \<or>
   events (existing_credentials env) = [LoadTokenFile, RefreshToken] \<and>
     creds_were_modified_and_need_saving (existing_credentials env) = (creds (existing_credentials env) \<noteq> None)"
  by (simp add: existing_credentials_def check_loaded_def load_token_def
      split: sum.splits option.splits)

lemma existing_credentials_no_flow:
  "RunLocalServer \<notin> set (events (existing_credentials env))"
  "ClientSecretsFile \<notin> set (events (existing_credentials env))"
  "WriteTokenFile \<notin> set (events (existing_credentials env))"
  "BuildService \<notin> set (events (existing_credentials env))"
  using existing_credentials_events [of env] by auto

lemma new_oauth_flow_kept:
  "creds st = Some c \<Longrightarrow> new_oauth_flow env st = Inr st"
  by (simp add: new_oauth_flow_def)

lemma save_token_events:
  "events (save_token env st) = events st \<or> events (save_token env st) = events st @ [WriteTokenFile]"
  by (simp add: save_token_def split: option.splits)

lemma save_token_creds: "creds (save_token env st) = creds st"
  by (simp add: save_token_def split: option.splits)

lemma build_service_events:
  "snd (build_service env st) = events st \<or> snd (build_service env st) = events st @ [BuildService]"
  by (simp add: build_service_def split: option.splits sum.splits exn.splits)

lemma new_oauth_flow_events:
  "(case new_oauth_flow env st of Inl evs \<Rightarrow> evs | Inr st' \<Rightarrow> events st') \<in>
     {events st, events st @ [ClientSecretsFile], events st @ [ClientSecretsFile, RunLocalServer]}"
  by (simp add: new_oauth_flow_def split: option.splits sum.splits exn.splits)

lemma count_flow_authenticate:
  "count_list (snd (authenticate_gmail env)) RunLocalServer \<le> 1"
proof -
  let ?st = "existing_credentials env"
  have zero: "count_list (events ?st) RunLocalServer = 0"
    using existing_credentials_no_flow(1) [of env] by (simp add: count_list_0_iff)
  show ?thesis
  proof (cases "new_oauth_flow env ?st")
    case (Inl evs)
    with new_oauth_flow_events [of env ?st] zero show ?thesis
      by (auto simp: authenticate_gmail_def)
  next
    case (Inr st')
    with new_oauth_flow_events [of env ?st] zero
    have "count_list (events st') RunLocalServer \<le> 1" by auto
    moreover have "count_list (snd (build_service env (save_token env st'))) RunLocalServer =
        count_list (events st') RunLocalServer"
      using build_service_events [of env "save_token env st'"] save_token_events [of env st']
      by auto
    ultimately show ?thesis using Inr by (simp add: authenticate_gmail_def)
  qed
qed

lemma main_auth_events: "auth_events (main env) = snd (authenticate_gmail env)"
  by (simp add: main_def split: prod.splits option.splits)

lemma refresh_success_state:
  assumes "token_file_exists env" "from_authorized_user_file env = Inr c"
    "expired c" "truthy (refresh_token c)" "refresh env c = Inr c'"
  shows "creds (existing_credentials env) \<noteq> None"
  using assms by (simp add: existing_credentials_def check_loaded_def load_token_def)

lemma refresh_failed_state:
  assumes "token_file_exists env" "from_authorized_user_file env = Inr c" "\<not> valid c"
    "expired c" "truthy (refresh_token c)" "refresh env c = Inl e"
  shows "existing_credentials env =
    \<lparr>creds = None, creds_were_modified_and_need_saving = False,
     events = [LoadTokenFile, RefreshToken]\<rparr>"
  using assms by (simp add: existing_credentials_def check_loaded_def load_token_def)

text \<open>
  C5. From a loaded, expired credential with a refresh token, a refresh that succeeds
  means that the interactive grant flow is never invoked (nor its flow object built); and
  in every run of \<open>authenticate_gmail\<close>, hence of the program, the grant flow is launched at
  most once.
\<close>

theorem refresh_precedence:
  "(token_file_exists env \<and> from_authorized_user_file env = Inr c \<and> expired c \<and>
    truthy (refresh_token c) \<and> refresh env c = Inr c' \<longrightarrow>
      RunLocalServer \<notin> set (snd (authenticate_gmail env)) \<and>
      ClientSecretsFile \<notin> set (snd (authenticate_gmail env))) \<and>
   count_list (snd (authenticate_gmail env)) RunLocalServer \<le> 1 \<and>
   count_list (auth_events (main env)) RunLocalServer \<le> 1"
proof (intro conjI impI)
  assume a: "token_file_exists env \<and> from_authorized_user_file env = Inr c \<and> expired c \<and>
    truthy (refresh_token c) \<and> refresh env c = Inr c'"
  let ?st = "existing_credentials env"
  from a have "creds ?st \<noteq> None" using refresh_success_state [of env c c'] by simp
  then have flow: "new_oauth_flow env ?st = Inr ?st"
    by (auto simp: new_oauth_flow_kept)
  then have auth: "authenticate_gmail env = build_service env (save_token env ?st)"
    by (simp add: authenticate_gmail_def)
  have "set (snd (authenticate_gmail env)) \<subseteq> set (events ?st) \<union> {WriteTokenFile, BuildService}"
    unfolding auth
    using build_service_events [of env "save_token env ?st"] save_token_events [of env ?st]
    by auto
  then show "RunLocalServer \<notin> set (snd (authenticate_gmail env))"
    and "ClientSecretsFile \<notin> set (snd (authenticate_gmail env))"
    using existing_credentials_no_flow [of env] by auto
next
  show "count_list (snd (authenticate_gmail env)) RunLocalServer \<le> 1"
    by (rule count_flow_authenticate)
  then show "count_list (auth_events (main env)) RunLocalServer \<le> 1"
    by (simp add: main_auth_events)
qed

theorem refresh_precedence_witness:
  "authenticate_gmail refresh_succeeds =
     (Some two_page_service, [LoadTokenFile, RefreshToken, WriteTokenFile, BuildService]) \<and>
   RunLocalServer \<notin> set (snd (authenticate_gmail refresh_succeeds)) \<and>
   count_list (auth_events (main refresh_succeeds)) RunLocalServer = 0"
  using refresh_precedence [of refresh_succeeds expired_creds
      "expired_creds\<lparr>token := ''new'', expired := False, valid := True\<rparr>"]
  by (simp add: auth_defs refresh_succeeds_def expired_creds_def main_auth_events)

text \<open>
  The claim C6 as stated fails when \<^verbatim>\<open>credentials.json\<close> is absent: after the refresh has
  raised, the guard of line 87 returns \<open>None\<close> and the grant flow is not invoked.
\<close>

theorem refresh_fallback_counterexample:
  "token_file_exists refresh_fails_no_config \<and>
   from_authorized_user_file refresh_fails_no_config = Inr expired_creds \<and>
   \<not> valid expired_creds \<and> expired expired_creds \<and> truthy (refresh_token expired_creds) \<and>
   refresh refresh_fails_no_config expired_creds = Inl OtherException \<and>
   count_list (snd (authenticate_gmail refresh_fails_no_config)) RunLocalServer = 0 \<and>
   fst (authenticate_gmail refresh_fails_no_config) = None"
  by (simp add: auth_defs refresh_fails_no_config_def expired_creds_def)

text \<open>
  C6 (amended). From a loaded, expired credential with a refresh token whose refresh
  raises, if \<^verbatim>\<open>credentials.json\<close> exists and the flow object is built from it, the interactive
  grant flow is invoked exactly once; any service the operation returns is built from the
  valid credential that the flow produced, which is the credential held after all steps;
  and when the flow produces a valid credential from which the service can be built, the
  operation returns that service, so the refresh failure is not terminal.
\<close>

theorem refresh_fallback:
  assumes "token_file_exists env" and "from_authorized_user_file env = Inr c"
    and "\<not> valid c" and "expired c" and "truthy (refresh_token c)"
    and "refresh env c = Inl e"
    and "credentials_json_exists env" and "from_client_secrets_file env = Inr fl"
  shows "count_list (snd (authenticate_gmail env)) RunLocalServer = 1 \<and>
         (\<forall>svc. fst (authenticate_gmail env) = Some svc \<longrightarrow>
            (\<exists>c'. run_local_server fl = Inr (Some c') \<and> valid c' \<and>
                  credentials_after_steps env = Some c' \<and> build env c' = Inr svc)) \<and>
         (\<forall>c' svc. run_local_server fl = Inr (Some c') \<and> valid c' \<and> build env c' = Inr svc \<longrightarrow>
            authenticate_gmail env =
              (Some svc, [LoadTokenFile, RefreshToken, ClientSecretsFile, RunLocalServer,
                          WriteTokenFile, BuildService]))"
proof -
  note st = refresh_failed_state [OF assms(1-6)]
  show ?thesis
  proof (cases "run_local_server fl")
    case (Inl e')
    then show ?thesis using assms(7,8)
      by (cases e')
         (simp_all add: authenticate_gmail_def credentials_after_steps_def st new_oauth_flow_def)
  next
    case (Inr r)
    show ?thesis
    proof (cases r)
      case None
      with Inr show ?thesis using assms(7,8)
        by (simp add: authenticate_gmail_def credentials_after_steps_def st new_oauth_flow_def
            save_token_def build_service_def)
    next
      case (Some c')
      with Inr show ?thesis using assms(7,8)
        by (simp add: authenticate_gmail_def credentials_after_steps_def st new_oauth_flow_def
            save_token_def build_service_def split: option.splits sum.splits exn.splits)
    qed
  qed
qed

theorem refresh_fallback_witness:
  "authenticate_gmail refresh_fails =
     (Some two_page_service,
      [LoadTokenFile, RefreshToken, ClientSecretsFile, RunLocalServer, WriteTokenFile,
       BuildService]) \<and>
   count_list (snd (authenticate_gmail refresh_fails)) RunLocalServer = 1 \<and>
   credentials_after_steps refresh_fails = Some granted_creds \<and>
   build refresh_fails expired_creds = Inl OtherException"
  using refresh_fallback [of refresh_fails expired_creds OtherException
      "Flow (Inr (Some granted_creds))"]
  by (simp add: refresh_fails_def expired_creds_def granted_creds_def truthy_def)




text \<open>
  C8. \<open>authenticate_gmail\<close> returns a service only if the credential held after the load,
  refresh, grant and save steps is valid, and the service is built from that credential;
  when no valid credential is held then, it returns \<open>None\<close>.
\<close>

theorem authenticate_gmail_valid_only:
  "(fst (authenticate_gmail env) = Some svc \<longrightarrow>
      (\<exists>c. credentials_after_steps env = Some c \<and> valid c \<and> build env c = Inr svc)) \<and>
   (\<not> (\<exists>c. credentials_after_steps env = Some c \<and> valid c) \<longrightarrow>
      fst (authenticate_gmail env) = None)"
proof (cases "new_oauth_flow env (existing_credentials env)")
  case (Inl evs)
  then show ?thesis by (simp add: authenticate_gmail_def credentials_after_steps_def)
next
  case (Inr st)
  then show ?thesis
    by (auto simp: authenticate_gmail_def credentials_after_steps_def build_service_def
        split: option.splits sum.splits exn.splits)
qed

theorem authenticate_gmail_valid_only_witness:
  "fst (authenticate_gmail token_valid) = Some two_page_service \<and>
   credentials_after_steps token_valid = Some valid_creds \<and> valid valid_creds \<and>
   credentials_after_steps grant_not_valid = Some invalid_grant_creds \<and>
   \<not> valid invalid_grant_creds \<and>
   fst (authenticate_gmail grant_not_valid) = None"
  using authenticate_gmail_valid_only [of token_valid two_page_service]
    authenticate_gmail_valid_only [of grant_not_valid two_page_service]
  by (simp add: auth_defs token_valid_def grant_not_valid_def valid_creds_def
      invalid_grant_creds_def)

end
